theory Spec2Isabelle
  imports Complex_Main "HOL-Library.Multiset"
begin

section \<open>Strings\<close>

text \<open>Python's \<open>sub in text\<close> on strings: \<open>sub\<close> occurs as a contiguous substring.\<close>

fun has_prefix :: "string \<Rightarrow> string \<Rightarrow> bool" where
  "has_prefix [] t = True"
| "has_prefix (c # s) [] = False"
| "has_prefix (c # s) (d # t) = (c = d \<and> has_prefix s t)"

fun str_in :: "string \<Rightarrow> string \<Rightarrow> bool" where
  "str_in s [] = (s = [])"
| "str_in s (d # t) = (has_prefix s (d # t) \<or> str_in s t)"

text \<open>\<open>str.lower()\<close>, on the ASCII letters.\<close>

definition lower_char :: "char \<Rightarrow> char" where
  "lower_char c =
     (if (65::nat) \<le> of_char c \<and> of_char c \<le> (90::nat)
      then char_of (of_char c + (32::nat)) else c)"

definition lower :: "string \<Rightarrow> string" where
  "lower s = map lower_char s"

section \<open>State (state.py)\<close>

text \<open>
  Python floats are modelled as exact rationals. The dictionaries that \<open>model_dump()\<close>
  produces are records; the telemetry dictionaries are maps from node key to number.
\<close>

record ExtractedData =
  client_name :: string
  industry :: string
  revenue :: rat
  employees :: int
  address :: "string option"
  coverage_needs :: "string list"

record CalculationResult =
  gl_base :: rat
  gl_formula :: string
  loss_modifier :: rat
  loss_percent :: string
  loss_formula :: string
  auto_premium :: rat
  auto_formula :: string
  auto_formula_desc :: string
  final_premium :: rat
  authority :: string
  coverage_analysis :: string

record IndustryClassification =
  ic_name :: string
  ic_code :: string

record Rate =
  rate_type :: string
  rate_value :: rat

record RiskAssessment =
  level :: string
  score :: int
  revenue_factor :: rat

text \<open>\<open>merge_dicts(a, b) = {**a, **b}\<close>: the keys of \<open>b\<close> override those of \<open>a\<close>.\<close>

definition merge_dicts :: "('k \<rightharpoonup> 'v) \<Rightarrow> ('k \<rightharpoonup> 'v) \<Rightarrow> ('k \<rightharpoonup> 'v)" where
  "merge_dicts a b = a ++ b"

text \<open>\<open>operator.add\<close> on lists: concatenation.\<close>

definition add :: "'a list \<Rightarrow> 'a list \<Rightarrow> 'a list" where
  "add a b = a @ b"

text \<open>
  \<open>AgentState\<close>. A key of the TypedDict that no node has written yet is absent
  (\<open>None\<close>); the three fields with an \<open>Annotated\<close> reducer start from the empty
  dictionary and the empty list.
\<close>

record AgentState =
  input_email :: string
  quote_id :: string
  extracted_data :: "ExtractedData option"
  industry_classification :: "IndustryClassification option"
  rates :: "Rate list option"
  risk_assessment :: "RiskAssessment option"
  calculation :: "CalculationResult option"
  quote_letter :: "string option"
  error :: "string option"
  is_referral :: "bool option"
  is_approved :: "bool option"
  cost_tracking :: "string \<rightharpoonup> rat"
  execution_time :: "string \<rightharpoonup> rat"
  security_flags :: "string list"
  pillars :: "(string \<rightharpoonup> (string \<rightharpoonup> rat)) option"

text \<open>
  A partial state (the dictionary a node returns) is a list of writes, one per key.
  \<open>stop_reason\<close> is the key the \<open>manual_review\<close> lambda returns; \<open>AgentState\<close>
  declares no such field.
\<close>

datatype update =
    W_extracted_data ExtractedData
  | W_industry_classification IndustryClassification
  | W_rates "Rate list"
  | W_risk_assessment RiskAssessment
  | W_calculation CalculationResult
  | W_quote_letter string
  | W_error string
  | W_is_referral bool
  | W_is_approved bool
  | W_cost_tracking "string \<rightharpoonup> rat"
  | W_execution_time "string \<rightharpoonup> rat"
  | W_security_flags "string list"
  | W_stop_reason string

type_synonym patch = "update list"

fun key_of :: "update \<Rightarrow> string" where
  "key_of (W_extracted_data v) = ''extracted_data''"
| "key_of (W_industry_classification v) = ''industry_classification''"
| "key_of (W_rates v) = ''rates''"
| "key_of (W_risk_assessment v) = ''risk_assessment''"
| "key_of (W_calculation v) = ''calculation''"
| "key_of (W_quote_letter v) = ''quote_letter''"
| "key_of (W_error v) = ''error''"
| "key_of (W_is_referral v) = ''is_referral''"
| "key_of (W_is_approved v) = ''is_approved''"
| "key_of (W_cost_tracking v) = ''cost_tracking''"
| "key_of (W_execution_time v) = ''execution_time''"
| "key_of (W_security_flags v) = ''security_flags''"
| "key_of (W_stop_reason v) = ''stop_reason''"

datatype policy = Overwrite | ShallowMerge | Append

text \<open>
  The merge policy each field of \<open>AgentState\<close> declares: \<open>Annotated[..., merge_dicts]\<close>,
  \<open>Annotated[..., add]\<close>, or none (overwrite). An undeclared key has no policy.
\<close>

definition policy_of :: "string \<Rightarrow> policy option" where
  "policy_of k =
     (if k = ''cost_tracking'' \<or> k = ''execution_time'' then Some ShallowMerge
      else if k = ''security_flags'' then Some Append
      else if k \<in> set [''input_email'', ''quote_id'', ''extracted_data'',
                        ''industry_classification'', ''rates'', ''risk_assessment'',
                        ''calculation'', ''quote_letter'', ''error'', ''is_referral'',
                        ''is_approved'', ''pillars'']
      then Some Overwrite
      else None)"

text \<open>Applying one write under the field's reducer.\<close>

fun apply_update :: "AgentState \<Rightarrow> update \<Rightarrow> AgentState" where
  "apply_update s (W_extracted_data v) = s\<lparr>extracted_data := Some v\<rparr>"
| "apply_update s (W_industry_classification v) = s\<lparr>industry_classification := Some v\<rparr>"
| "apply_update s (W_rates v) = s\<lparr>rates := Some v\<rparr>"
| "apply_update s (W_risk_assessment v) = s\<lparr>risk_assessment := Some v\<rparr>"
| "apply_update s (W_calculation v) = s\<lparr>calculation := Some v\<rparr>"
| "apply_update s (W_quote_letter v) = s\<lparr>quote_letter := Some v\<rparr>"
| "apply_update s (W_error v) = s\<lparr>error := Some v\<rparr>"
| "apply_update s (W_is_referral v) = s\<lparr>is_referral := Some v\<rparr>"
| "apply_update s (W_is_approved v) = s\<lparr>is_approved := Some v\<rparr>"
| "apply_update s (W_cost_tracking d) = s\<lparr>cost_tracking := merge_dicts (cost_tracking s) d\<rparr>"
| "apply_update s (W_execution_time d) =
     s\<lparr>execution_time := merge_dicts (execution_time s) d\<rparr>"
| "apply_update s (W_security_flags l) = s\<lparr>security_flags := add (security_flags s) l\<rparr>"
| "apply_update s (W_stop_reason v) = s"

definition apply_patch :: "AgentState \<Rightarrow> patch \<Rightarrow> AgentState" where
  "apply_patch s p = foldl apply_update s p"

definition apply_patches :: "AgentState \<Rightarrow> patch list \<Rightarrow> AgentState" where
  "apply_patches s ps = foldl apply_patch s ps"

text \<open>The state the callers start from: \<open>{"input_email": ..., "quote_id": ...}\<close>.\<close>

definition initial_state :: "string \<Rightarrow> string \<Rightarrow> AgentState" where
  "initial_state email qid =
     \<lparr>input_email = email, quote_id = qid, extracted_data = None,
      industry_classification = None, rates = None, risk_assessment = None,
      calculation = None, quote_letter = None, error = None, is_referral = None,
      is_approved = None, cost_tracking = Map.empty, execution_time = Map.empty,
      security_flags = [], pillars = None\<rparr>"

section \<open>Nodes (nodes.py)\<close>

text \<open>
  What the nodes take from outside the program: the language-model extraction chain
  (\<open>Inl\<close> the text of the exception it raised), \<open>str()\<close> of the extracted dictionary,
  the wall-clock time a node measured for itself, the number formats \<open>{x:,.0f}\<close> and
  \<open>{x:,.2f}\<close>, and the rendering of the quote letter template (which embeds a
  reference id taken from the clock).
\<close>

record Env =
  chain_invoke :: "string \<Rightarrow> string + ExtractedData"
  dict_str :: "ExtractedData \<Rightarrow> string"
  elapsed :: "string \<Rightarrow> rat"
  fmt0 :: "rat \<Rightarrow> string"
  fmt2 :: "rat \<Rightarrow> string"
  render_letter :: "string \<Rightarrow> string \<Rightarrow> rat \<Rightarrow> string \<Rightarrow> string"

datatype node_error = KeyError string

type_synonym node_fn = "Env \<Rightarrow> AgentState \<Rightarrow> node_error + patch"

definition track_cost :: "string \<Rightarrow> rat" where
  "track_cost text =
     (let char_count = length text;
          tokens = of_nat char_count / 4;
          cost = (tokens / 1000) * (1 / 10000)
      in cost)"

definition node_security_scan :: node_fn where
  "node_security_scan env state =
     (let email_content = input_email state;
          flags = [];
          flags = (if str_in ''SSN'' email_content \<or> str_in ''Social Security'' email_content
                   then flags @ [''POTENTIAL_PII_SSN''] else flags);
          flags = (if str_in ''Credit Card'' email_content
                   then flags @ [''POTENTIAL_PII_CC''] else flags);
          cost = track_cost email_content
      in Inr [W_security_flags flags,
              W_execution_time [''security'' \<mapsto> elapsed env ''security''],
              W_cost_tracking [''security'' \<mapsto> cost]])"

text \<open>The \<open>except Exception\<close> branch returns \<open>{"error": str(e)}\<close>: the node does not fail.\<close>

definition node_extract :: node_fn where
  "node_extract env state =
     (case chain_invoke env (input_email state) of
        Inl e \<Rightarrow> Inr [W_error e]
      | Inr data_dict \<Rightarrow>
          (let cost = track_cost (input_email state) + track_cost (dict_str env data_dict)
           in Inr [W_extracted_data data_dict,
                   W_execution_time [''extraction'' \<mapsto> elapsed env ''extraction''],
                   W_cost_tracking [''extraction'' \<mapsto> cost]]))"

definition node_industry :: node_fn where
  "node_industry env state =
     (case extracted_data state of
        None \<Rightarrow> Inl (KeyError ''extracted_data'')
      | Some data \<Rightarrow>
          Inr [W_industry_classification \<lparr>ic_name = industry data, ic_code = ''NAICS-123''\<rparr>,
               W_execution_time [''industry'' \<mapsto> elapsed env ''industry''],
               W_cost_tracking [''industry'' \<mapsto> 1 / 10000]])"

definition node_rates :: node_fn where
  "node_rates env state =
     Inr [W_rates [\<lparr>rate_type = ''GL'', rate_value = 5 / 100\<rparr>],
          W_execution_time [''rates'' \<mapsto> elapsed env ''rates''],
          W_cost_tracking [''rates'' \<mapsto> 2 / 10000]]"

definition node_risk :: node_fn where
  "node_risk env state =
     (case extracted_data state of
        None \<Rightarrow> Inl (KeyError ''extracted_data'')
      | Some data \<Rightarrow>
          (let rev = revenue data;
               ind = industry data;
               email_content = lower (input_email state);
               (risk_level, risk_score) =
                 (if str_in ''structural failures'' email_content
                     \<or> str_in ''nuclear'' email_content
                     \<or> str_in ''bankruptcy'' email_content then (''HIGH'', 88)
                  else if str_in ''Construction'' ind then (''HIGH'', 80)
                  else if str_in ''Restaurant'' ind then (''MEDIUM'', 45)
                  else if rev > 15000000 then (''HIGH'', 85)
                  else if rev > 5000000 then (''MEDIUM'', 50)
                  else (''LOW'', 25))
           in Inr [W_risk_assessment
                     \<lparr>level = risk_level, score = risk_score, revenue_factor = rev\<rparr>,
                   W_is_referral (risk_level = ''HIGH''),
                   W_execution_time [''risk'' \<mapsto> elapsed env ''risk''],
                   W_cost_tracking [''risk'' \<mapsto> 1 / 10000]]))"

text \<open>
  \<open>node_calculate\<close>: the branch chain on industry and client name, in the source's order.
  Each branch yields the possibly reassigned revenue together with the figures and labels.
\<close>

definition node_calculate :: node_fn where
  "node_calculate env state =
     (case extracted_data state of
        None \<Rightarrow> Inl (KeyError ''extracted_data'')
      | Some data \<Rightarrow>
          (let cname = client_name data;
               ind = industry data;
               rev = revenue data;
               (rev, gl, glf, lm, lp, lf, ap, ad, af) =
                 (if str_in ''Construction'' ind \<or> str_in ''Construction'' cname then
                    (let gl = (rev / 1000) * (85 / 10);
                         glf = ''($'' @ fmt0 env rev @ '' / 1000) * Rate $8.50'';
                         email_content = lower (input_email state);
                         (lm, lp, lf) =
                           (if str_in ''nuclear'' email_content
                               \<or> str_in ''structural failures'' email_content
                            then (gl * 5, ''Loss Mod (Severe Risk +500%)'',
                                  ''Base $'' @ fmt0 env gl @ '' * 5.0 (Extreme Hazard)'')
                            else (gl * (15 / 100), ''Loss Mod (+15%)'',
                                  fmt2 env gl @ '' * 0.15 (High Risk Ind)''))
                     in (rev, gl, glf, lm, lp, lf, 25 * 750, ''Commercial Auto'',
                         ''25 vehicles * $750/vehicle''))
                  else if str_in ''Tech'' ind \<or> str_in ''SaaS'' ind \<or> str_in ''Software'' ind then
                    (rev, 500, ''Standard Office GL (Flat)'', 3500, ''Cyber Liability'',
                     ''Cyber Security (Base)'', rev * (2 / 1000),
                     ''Professional Liability (E&O)'', ''Rev $'' @ fmt0 env rev @ '' * 0.002'')
                  else if str_in ''Restaurant'' ind \<or> str_in ''Kitchen'' cname then
                    (rev, (rev / 1000) * (55 / 10),
                     ''($'' @ fmt0 env rev @ '' / 1000) * Rate $5.50'',
                     350000 * (2 / 100), ''Property Coverage'', ''$350,000 * Rate 0.02'',
                     rev * (30 / 100) * (8 / 1000), ''Liquor Liability'',
                     ''Rev * 30% (Alcohol) * 0.008'')
                  else if str_in ''Retail'' ind \<or> str_in ''Boutique'' ind
                          \<or> str_in ''Clothing'' ind \<or> str_in ''Fashion'' ind then
                    (let rev = 850000
                     in (rev, 650, ''Minimum Base Premium'',
                         175000 * (15 / 1000), ''Property/Inventory'', ''$175,000 * Rate 0.015'',
                         rev * (5 / 1000), ''Auto/Other Premium'', ''Business Income Coverage''))
                  else
                    (rev, (rev / 1000) * 5, ''Standard Rate Apply'', 0, ''0%'', [], 0,
                     ''Auto/Other'', []));
               fp = gl + lm + ap;
               auth = (if fp < 200000 then ''APPROVED'' else ''REQUIRES_REVIEW'');
               result = \<lparr>gl_base = gl, gl_formula = glf, loss_modifier = lm, loss_percent = lp,
                         loss_formula = lf, auto_premium = ap, auto_formula = af,
                         auto_formula_desc = ad, final_premium = fp, authority = auth,
                         coverage_analysis =
                           ''Comprehensive coverage package tailored to industry risks.''\<rparr>
           in Inr [W_calculation result,
                   W_execution_time [''calculation'' \<mapsto> elapsed env ''calculation''],
                   W_cost_tracking [''calculation'' \<mapsto> 0]]))"

definition node_quote :: node_fn where
  "node_quote env state =
     (case calculation state of
        None \<Rightarrow> Inl (KeyError ''calculation'')
      | Some calc \<Rightarrow>
          (case extracted_data state of
             None \<Rightarrow> Inl (KeyError ''extracted_data'')
           | Some data \<Rightarrow>
               (case risk_assessment state of
                  None \<Rightarrow> Inl (KeyError ''risk_assessment'')
                | Some risk \<Rightarrow>
                    (let letter = render_letter env (client_name data) (industry data)
                                    (final_premium calc) (level risk)
                     in Inr [W_quote_letter letter,
                             W_execution_time [''quote_gen'' \<mapsto> elapsed env ''quote_gen''],
                             W_cost_tracking [''quote_gen'' \<mapsto> 1 / 10000]]))))"

text \<open>The \<open>manual_review\<close> lambda of \<open>build_graph\<close>.\<close>

definition node_manual_review :: node_fn where
  "node_manual_review env state = Inr [W_stop_reason ''HIGH_RISK_REQUIRES_APPROVAL'']"

section \<open>Routing and graph construction (graph.py)\<close>

definition route_after_risk :: "AgentState \<Rightarrow> string" where
  "route_after_risk state =
     (if security_flags state \<noteq> [] \<and> length (security_flags state) > 0 then ''END''
      else ''calculate'')"

definition route_after_calculation :: "AgentState \<Rightarrow> string" where
  "route_after_calculation state =
     (if is_approved state = Some True then ''quote''
      else if map_option level (risk_assessment state) = Some ''HIGH'' then ''manual_review''
      else ''quote'')"

text \<open>
  Modelled from the spec: the graph definition (3): registered nodes, unconditional edges,
  conditional edges with predicate and routing table, the Start pointer and the
  pause-before set. The source builds it through the calls of a graph-builder class that
  is missing from the sources (\<open>add_node\<close>, \<open>add_edge\<close>, \<open>add_conditional_edges\<close>,
  \<open>compile(interrupt_before=...)\<close>).
\<close>

datatype target = Node string | TERMINAL

record ConditionalEdge =
  ce_from :: string
  ce_predicate :: "AgentState \<Rightarrow> string"
  ce_table :: "(string \<times> target) list"

record Graph =
  g_nodes :: "(string \<times> node_fn) list"
  g_edges :: "(string \<times> target) list"
  g_conditional :: "ConditionalEdge list"
  g_start :: string
  g_pause_before :: "string list"

definition risk_table :: "(string \<times> target) list" where
  "risk_table = [(''calculate'', Node ''calculate''), (''END'', TERMINAL)]"

definition calculation_table :: "(string \<times> target) list" where
  "calculation_table = [(''quote'', Node ''quote''), (''manual_review'', Node ''manual_review'')]"

text \<open>
  The graph \<open>build_graph\<close> assembles. \<open>add_edge(START, "security")\<close> is the start
  pointer; \<open>END\<close> is \<open>TERMINAL\<close>; \<open>interrupt_before\<close> is the pause-before list.
\<close>

definition build_graph :: Graph where
  "build_graph =
     \<lparr>g_nodes = [(''security'', node_security_scan), (''extract'', node_extract),
                 (''industry'', node_industry), (''rates'', node_rates), (''risk'', node_risk),
                 (''calculate'', node_calculate), (''quote'', node_quote),
                 (''manual_review'', node_manual_review)],
      g_edges = [(''security'', Node ''extract''),
                 (''extract'', Node ''industry''), (''extract'', Node ''rates''),
                 (''extract'', Node ''risk''),
                 (''industry'', Node ''calculate''), (''rates'', Node ''calculate''),
                 (''quote'', TERMINAL),
                 (''manual_review'', Node ''quote'')],
      g_conditional =
        [\<lparr>ce_from = ''risk'', ce_predicate = route_after_risk, ce_table = risk_table\<rparr>,
         \<lparr>ce_from = ''calculate'', ce_predicate = route_after_calculation,
          ce_table = calculation_table\<rparr>],
      g_start = ''security'',
      g_pause_before = [''manual_review'']\<rparr>"

section \<open>The graph engine\<close>

text \<open>
  \<open>build_graph\<close> hands the graph to \<open>workflow.compile\<close>, and the callers drive the
  result with \<open>invoke\<close> and \<open>update_state\<close>. That executor is not among the source
  files; the definitions of this section follow the specification of the engine.
\<close>

subsection \<open>Static structure\<close>

text \<open>
  Modelled from the spec: the node identifiers that a list of edge targets names
  (\<open>TERMINAL\<close> names none) and the registered identifiers of a graph; the compiler and the
  scheduler that read them are missing from the sources.
\<close>

fun node_targets :: "target list \<Rightarrow> string list" where
  "node_targets [] = []"
| "node_targets (Node n # ts) = n # node_targets ts"
| "node_targets (TERMINAL # ts) = node_targets ts"

definition node_ids :: "Graph \<Rightarrow> string list" where
  "node_ids g = map fst (g_nodes g)"

text \<open>
  Modelled from the spec: the static arcs of a graph definition (the compiler that reads
  them is missing from the sources): every unconditional edge to a node, and for every
  conditional edge one arc to each node of its routing table.
\<close>

definition conditional_arcs :: "ConditionalEdge \<Rightarrow> (string \<times> string) list" where
  "conditional_arcs c = map (Pair (ce_from c)) (node_targets (map snd (ce_table c)))"

definition arcs :: "Graph \<Rightarrow> (string \<times> string) list" where
  "arcs g =
     concat (map (\<lambda>e. map (Pair (fst e)) (node_targets [snd e])) (g_edges g))
     @ concat (map conditional_arcs (g_conditional g))"

text \<open>
  Modelled from the spec: successor expansion over the static arcs, for the reachability
  tests of the compiler and the scheduler, both missing from the sources.
\<close>

definition succs_of :: "(string \<times> string) list \<Rightarrow> string list \<Rightarrow> string list" where
  "succs_of as ns = map snd (filter (\<lambda>a. fst a \<in> set ns) as)"

fun reach_from :: "(string \<times> string) list \<Rightarrow> nat \<Rightarrow> string list \<Rightarrow> string list" where
  "reach_from as 0 acc = acc"
| "reach_from as (Suc k) acc = reach_from as k (remdups (acc @ succs_of as acc))"

text \<open>
  Modelled from the spec: reachability for the compiler's "no node is unreachable" check
  (missing from the sources), by as many rounds of successor expansion as there are nodes.
\<close>

definition reachable :: "Graph \<Rightarrow> string list" where
  "reachable g = reach_from (arcs g) (length (g_nodes g)) [g_start g]"

text \<open>
  Modelled from the spec: the nodes strictly downstream of a set of nodes (used by the
  scheduler's readiness rule, missing from the sources).
\<close>

definition downstream :: "Graph \<Rightarrow> string list \<Rightarrow> string list" where
  "downstream g ns = reach_from (arcs g) (length (g_nodes g)) (succs_of (arcs g) ns)"

subsection \<open>Graph compiler\<close>

text \<open>
  Modelled from the spec: the faults \<open>compile\<close> reports (4.1, one per validation) and the
  compiled graph it returns; the compiler is missing from the sources.
\<close>

datatype CompileError =
    UnknownEndpoint string
  | StartNotRegistered string
  | UnreachableNode string
  | CycleDetected

record CompiledGraph =
  cg_graph :: Graph
  cg_order :: "string list"

text \<open>
  Modelled from the spec: the topological sort of the compiler (4.1, "no cycles exist
  (topological sort must succeed)"), missing from the sources. It repeatedly takes the
  first remaining node that has no incoming arc from a remaining node.
\<close>

definition is_source :: "(string \<times> string) list \<Rightarrow> string list \<Rightarrow> string \<Rightarrow> bool" where
  "is_source as remaining n = (\<not> list_ex (\<lambda>a. snd a = n \<and> fst a \<in> set remaining) as)"

function topo_sort :: "(string \<times> string) list \<Rightarrow> string list \<Rightarrow> string list option" where
  "topo_sort as remaining =
     (if remaining = [] then Some []
      else (case find (is_source as remaining) remaining of
              None \<Rightarrow> None
            | Some n \<Rightarrow> map_option ((#) n) (topo_sort as (removeAll n remaining))))"
  by pat_completeness auto
termination
proof (relation "measure (\<lambda>(as, remaining). length remaining)")
  show "wf (measure (\<lambda>(as, remaining). length remaining))" by simp
next
  fix as :: "(string \<times> string) list" and remaining :: "string list" and n
  assume "find (is_source as remaining) remaining = Some n"
  then have "n \<in> set remaining"
    by (auto simp: find_Some_iff)
  then show "((as, removeAll n remaining), (as, remaining))
               \<in> measure (\<lambda>(as, remaining). length remaining)"
    by (simp add: length_removeAll_less)
qed

declare topo_sort.simps [simp del]

text \<open>
  Modelled from the spec: every identifier that an edge or a conditional edge of the graph
  definition names (4.1, "every edge/conditional-edge endpoint"), for the missing compiler.
\<close>

definition endpoints :: "Graph \<Rightarrow> string list" where
  "endpoints g =
     map fst (g_edges g) @ node_targets (map snd (g_edges g))
     @ map ce_from (g_conditional g)
     @ concat (map (\<lambda>c. node_targets (map snd (ce_table c))) (g_conditional g))"

text \<open>
  Modelled from the spec: \<open>compile\<close> (4.1), missing from the sources. It validates, in
  this order, that every endpoint is registered, that Start is registered, that every
  node is reachable, and that the topological sort succeeds.
\<close>

definition compile :: "Graph \<Rightarrow> CompileError + CompiledGraph" where
  "compile g =
     (case find (\<lambda>n. n \<notin> set (node_ids g)) (endpoints g) of
        Some n \<Rightarrow> Inl (UnknownEndpoint n)
      | None \<Rightarrow>
          if g_start g \<notin> set (node_ids g) then Inl (StartNotRegistered (g_start g))
          else (case find (\<lambda>n. n \<notin> set (reachable g)) (node_ids g) of
                  Some n \<Rightarrow> Inl (UnreachableNode n)
                | None \<Rightarrow>
                    (case topo_sort (arcs g) (node_ids g) of
                       None \<Rightarrow> Inl CycleDetected
                     | Some ord \<Rightarrow> Inr \<lparr>cg_graph = g, cg_order = ord\<rparr>)))"

text \<open>
  The notions the properties of the compiler are stated with: a cycle among the nodes, and
  a topological ordering of them.
\<close>

definition has_cycle :: "Graph \<Rightarrow> bool" where
  "has_cycle g = (\<exists>n. (n, n) \<in> (set (arcs g))\<^sup>+)"

definition topological_order :: "Graph \<Rightarrow> string list \<Rightarrow> bool" where
  "topological_order g ord =
     (distinct ord \<and> set ord = set (node_ids g) \<and>
      (\<forall>a \<in> set (arcs g). \<exists>i j. i < j \<and> j < length ord \<and> ord ! i = fst a \<and> ord ! j = snd a))"

subsection \<open>State container\<close>

text \<open>
  Modelled from the spec: the fault \<open>merge\<close> reports (4.3), missing from the sources with
  it, and the search for the first Overwrite field that a patch of the batch writes after
  an earlier patch has written it.
\<close>

datatype MergeError = MergeError string

definition overwrite_keys :: "patch \<Rightarrow> string list" where
  "overwrite_keys p = filter (\<lambda>k. policy_of k = Some Overwrite) (map key_of p)"

fun first_conflict :: "string list \<Rightarrow> patch list \<Rightarrow> string option" where
  "first_conflict seen [] = None"
| "first_conflict seen (p # ps) =
     (case find (\<lambda>k. k \<in> set seen) (overwrite_keys p) of
        Some k \<Rightarrow> Some k
      | None \<Rightarrow> first_conflict (seen @ overwrite_keys p) ps)"

text \<open>
  Modelled from the spec: \<open>merge\<close> (4.3), missing from the sources. It raises
  \<open>MergeError\<close> when two patches of the batch write the same Overwrite field, and
  otherwise applies every write under its field's reducer.
\<close>

definition merge :: "AgentState \<Rightarrow> patch list \<Rightarrow> MergeError + AgentState" where
  "merge current patches =
     (case first_conflict [] patches of
        Some k \<Rightarrow> Inl (MergeError k)
      | None \<Rightarrow> Inr (apply_patches current patches))"

subsection \<open>Scheduler, checkpoints and resume\<close>

text \<open>
  Modelled from the spec: checkpoints and execution results (3 and 4.2) of the scheduler,
  which is missing from the sources. A checkpoint has no timestamp here; \<open>Failed\<close> carries
  the last merged state (7) beside the node and its fault.
\<close>

record Checkpoint =
  cp_thread :: string
  cp_state :: AgentState
  cp_frontier :: "string list"

datatype Failure = NodeError node_error | MergeFailure MergeError | ConfigError string

datatype ExecutionResult =
    Completed AgentState
  | Paused Checkpoint string
  | Failed string Failure AgentState

text \<open>
  Modelled from the spec: a thread of the missing scheduler (3): the current state, the
  pending frontier, the nodes invoked so far in this run (in order), and the pause-before
  nodes approved to proceed.
\<close>

record Thread =
  t_state :: AgentState
  t_frontier :: "string list"
  t_executed :: "string list"
  t_approved :: "string list"

text \<open>
  Modelled from the spec: readiness (4.2, step (a) with the tie-break policy), missing
  from the sources. A frontier node waits while a node that can still reach it has not
  run, that is, while it is downstream of a node of the frontier; edges that were never
  activated put nothing into the frontier and so block nothing.
\<close>

definition ready_nodes :: "Graph \<Rightarrow> string list \<Rightarrow> string list" where
  "ready_nodes g fr = filter (\<lambda>n. n \<notin> set (downstream g fr)) fr"

text \<open>
  Modelled from the spec: invoking a registered node on the current state (4.2, step
  (c)), missing from the sources.
\<close>

definition invoke_node :: "Graph \<Rightarrow> Env \<Rightarrow> AgentState \<Rightarrow> string \<Rightarrow> node_error + patch" where
  "invoke_node g env st n =
     (case map_of (g_nodes g) n of
        None \<Rightarrow> Inl (KeyError n)
      | Some f \<Rightarrow> f env st)"

text \<open>
  Modelled from the spec: the patches of the nodes of a batch that succeeded, and the first
  node of the batch that failed (4.2, failure policy), for the missing scheduler.
\<close>

fun patches_of :: "(string \<times> (node_error + patch)) list \<Rightarrow> patch list" where
  "patches_of [] = []"
| "patches_of ((n, Inr p) # rs) = p # patches_of rs"
| "patches_of ((n, Inl e) # rs) = patches_of rs"

fun first_failure :: "(string \<times> (node_error + patch)) list \<Rightarrow> (string \<times> node_error) option" where
  "first_failure [] = None"
| "first_failure ((n, Inl e) # rs) = Some (n, e)"
| "first_failure ((n, Inr p) # rs) = first_failure rs"

text \<open>
  Modelled from the spec: resolving the outgoing edges of the completed nodes against
  the post-merge state (4.2, step (e)), missing from the sources. A label that the
  routing table does not map is the configuration error, reported with its node.
\<close>

fun resolve_conditional ::
  "AgentState \<Rightarrow> ConditionalEdge list \<Rightarrow> (string \<times> string) + target list" where
  "resolve_conditional st [] = Inr []"
| "resolve_conditional st (c # cs) =
     (case map_of (ce_table c) (ce_predicate c st) of
        None \<Rightarrow> Inl (ce_from c, ce_predicate c st)
      | Some t \<Rightarrow>
          (case resolve_conditional st cs of
             Inl e \<Rightarrow> Inl e
           | Inr ts \<Rightarrow> Inr (t # ts)))"

definition resolve :: "Graph \<Rightarrow> AgentState \<Rightarrow> string list \<Rightarrow> (string \<times> string) + string list" where
  "resolve g st completed =
     (case resolve_conditional st
             (filter (\<lambda>c. ce_from c \<in> set completed) (g_conditional g)) of
        Inl e \<Rightarrow> Inl e
      | Inr ts \<Rightarrow>
          Inr (node_targets
                 (map snd (filter (\<lambda>e. fst e \<in> set completed) (g_edges g)) @ ts)))"

text \<open>
  Modelled from the spec: one iteration of the scheduler loop (4.2, steps (a) to (f),
  and the failure policy), missing from the sources. \<open>Inl\<close> ends the run with its result
  and the list of invoked nodes; \<open>Inr\<close> is the thread for the next iteration. Frontier
  nodes that were not ready stay in the frontier. A batch whose patches do not merge is
  reported at its last node; a batch in which nodes failed is reported at the first of
  them, with the patches of the others merged.
\<close>

definition step ::
  "CompiledGraph \<Rightarrow> Env \<Rightarrow> string \<Rightarrow> Thread \<Rightarrow> (ExecutionResult \<times> string list) + Thread" where
  "step cg env tid th =
     (let g = cg_graph cg; st = t_state th; fr = t_frontier th
      in if fr = [] then Inl (Completed st, t_executed th)
         else
           (let ready = ready_nodes g fr
            in case find (\<lambda>n. n \<in> set (g_pause_before g) \<and> n \<notin> set (t_approved th)) ready of
                 Some n \<Rightarrow>
                   Inl (Paused \<lparr>cp_thread = tid, cp_state = st, cp_frontier = [n]\<rparr> n,
                        t_executed th)
               | None \<Rightarrow>
                   (let results = map (\<lambda>n. (n, invoke_node g env st n)) ready;
                        executed = t_executed th @ ready
                    in case merge st (patches_of results) of
                         Inl e \<Rightarrow> Inl (Failed (last ready) (MergeFailure e) st, executed)
                       | Inr st' \<Rightarrow>
                           (case first_failure results of
                              Some (n, e) \<Rightarrow> Inl (Failed n (NodeError e) st', executed)
                            | None \<Rightarrow>
                                (case resolve g st' ready of
                                   Inl (n, label) \<Rightarrow>
                                     Inl (Failed n (ConfigError label) st', executed)
                                 | Inr targets \<Rightarrow>
                                     Inr (th\<lparr>t_state := st',
                                             t_frontier :=
                                               remdups
                                                 (filter (\<lambda>n. n \<notin> set executed)
                                                    (filter (\<lambda>n. n \<notin> set ready) fr @ targets)),
                                             t_executed := executed\<rparr>))))))"

text \<open>
  Modelled from the spec: the scheduler loop (4.2, step 2), missing from the sources.
  Every iteration that continues invokes at least one node not invoked before, so the
  loop is given one round per registered node and one more for the final test;
  \<open>None\<close> is a run that did not end within them.
\<close>

fun run_loop ::
  "nat \<Rightarrow> CompiledGraph \<Rightarrow> Env \<Rightarrow> string \<Rightarrow> Thread \<Rightarrow> (ExecutionResult \<times> string list) option" where
  "run_loop 0 cg env tid th = None"
| "run_loop (Suc k) cg env tid th =
     (case step cg env tid th of
        Inl r \<Rightarrow> Some r
      | Inr th' \<Rightarrow> run_loop k cg env tid th')"







text \<open>The compiled underwriting graph (\<open>graph_app = build_graph()\<close> in the callers).\<close>

definition graph_app :: CompiledGraph where
  "graph_app =
     \<lparr>cg_graph = build_graph,
      cg_order = [''security'', ''extract'', ''industry'', ''rates'', ''risk'', ''calculate'',
                  ''manual_review'', ''quote'']\<rparr>"

section \<open>States along the pipeline\<close>

text \<open>
  The state after one node has run alone (unchanged when the node fails), the state
  after the batch of the three analysis nodes, and the states the underwriting graph
  passes through from a given start state.
\<close>

definition after :: "node_fn \<Rightarrow> Env \<Rightarrow> AgentState \<Rightarrow> AgentState" where
  "after f env s = (case f env s of Inl e \<Rightarrow> s | Inr p \<Rightarrow> apply_patches s [p])"






section \<open>Notions for the order of application\<close>

text \<open>
  The keys a write sets in a Shallow-merge dictionary; two writes are compatible when
  they target different fields, or the same reducer field with disjoint dictionary keys;
  the state with its flag list emptied; the flags a write appends.
\<close>

fun dict_keys :: "update \<Rightarrow> string set" where
  "dict_keys (W_cost_tracking d) = dom d"
| "dict_keys (W_execution_time d) = dom d"
| "dict_keys u = {}"

definition compatible :: "update \<Rightarrow> update \<Rightarrow> bool" where
  "compatible u v =
     (key_of u = key_of v \<longrightarrow>
        policy_of (key_of u) \<noteq> Some Overwrite \<and> dict_keys u \<inter> dict_keys v = {})"

fun pairwise_compatible :: "update list \<Rightarrow> bool" where
  "pairwise_compatible [] = True"
| "pairwise_compatible (u # us) = ((\<forall>v \<in> set us. compatible u v) \<and> pairwise_compatible us)"

definition drop_flags :: "AgentState \<Rightarrow> AgentState" where
  "drop_flags s = s\<lparr>security_flags := []\<rparr>"

fun flags_written :: "update \<Rightarrow> string list" where
  "flags_written (W_security_flags l) = l"
| "flags_written u = []"

definition erased_update :: "update \<Rightarrow> AgentState \<Rightarrow> AgentState" where
  "erased_update u s = drop_flags (apply_update s u)"

section \<open>Sample inputs\<close>

text \<open>
  An environment whose extraction chain answers \<open>r\<close> for every email, and three
  extracted records: a technology start-up, a construction company and a boutique.
\<close>

definition env_of :: "(string + ExtractedData) \<Rightarrow> Env" where
  "env_of r =
     \<lparr>chain_invoke = (\<lambda>email. r), dict_str = client_name, elapsed = (\<lambda>k. 1 / 8),
      fmt0 = (\<lambda>x. ''0''), fmt2 = (\<lambda>x. ''0.00''),
      render_letter = (\<lambda>client ind prem risk. ''Dear '' @ client)\<rparr>"



definition bella :: ExtractedData where
  "bella =
     \<lparr>client_name = ''Bella'', industry = ''Retail Boutique'', revenue = 1200000,
      employees = 6, address = Some ''Austin'', coverage_needs = [''GL'']\<rparr>"

text \<open>The underwriting graph with one more edge, from the quote node back to calculate.\<close>

definition cyclic_graph :: Graph where
  "cyclic_graph = build_graph\<lparr>g_edges := g_edges build_graph @ [(''quote'', Node ''calculate'')]\<rparr>"

section \<open>Routing\<close>

text \<open>
  C8: whenever \<open>is_approved\<close> is true, \<open>route_after_calculation\<close> returns \<open>"quote"\<close>,
  whatever the risk level is; the label is never \<open>"manual_review"\<close>, and the routing table
  of \<open>build_graph\<close> sends it to the quote node.
\<close>

theorem route_after_calculation_approved:
  "is_approved state = Some True \<Longrightarrow>
     route_after_calculation state = ''quote'' \<and>
     route_after_calculation state \<noteq> ''manual_review'' \<and>
     map_of calculation_table (route_after_calculation state) = Some (Node ''quote'')"
  by (simp add: route_after_calculation_def calculation_table_def)

theorem route_after_calculation_approved_witness:
  "is_approved ((initial_state ''mail'' ''q1'')
       \<lparr>risk_assessment := Some \<lparr>level = ''HIGH'', score = 88, revenue_factor = 20000000\<rparr>,
        is_approved := Some True\<rparr>) = Some True
   \<and> route_after_calculation ((initial_state ''mail'' ''q1'')
       \<lparr>risk_assessment := Some \<lparr>level = ''HIGH'', score = 88, revenue_factor = 20000000\<rparr>,
        is_approved := Some True\<rparr>) = ''quote''"
  using route_after_calculation_approved
    [of "(initial_state ''mail'' ''q1'')
       \<lparr>risk_assessment := Some \<lparr>level = ''HIGH'', score = 88, revenue_factor = 20000000\<rparr>,
        is_approved := Some True\<rparr>"]
  by simp

text \<open>
  C10: for every state, \<open>route_after_risk\<close> returns \<open>"calculate"\<close> or \<open>"END"\<close> and
  \<open>route_after_calculation\<close> returns \<open>"quote"\<close> or \<open>"manual_review"\<close>, and each
  conditional edge of \<open>build_graph\<close> maps the label its predicate returns: no label is
  ever unmapped.
\<close>

theorem routing_labels_mapped:
  "route_after_risk state \<in> {''calculate'', ''END''} \<and>
   route_after_calculation state \<in> {''quote'', ''manual_review''} \<and>
   map_of risk_table (route_after_risk state) \<noteq> None \<and>
   map_of calculation_table (route_after_calculation state) \<noteq> None \<and>
   list_all (\<lambda>c. map_of (ce_table c) (ce_predicate c state) \<noteq> None)
     (g_conditional build_graph)"
  by (simp add: route_after_risk_def route_after_calculation_def risk_table_def
      calculation_table_def build_graph_def)

theorem routing_labels_mapped_witness:
  "route_after_risk ((initial_state ''mail'' ''q1'')\<lparr>security_flags := [''POTENTIAL_PII_CC'']\<rparr>)
     = ''END''
   \<and> map_of risk_table
        (route_after_risk
           ((initial_state ''mail'' ''q1'')\<lparr>security_flags := [''POTENTIAL_PII_CC'']\<rparr>))
       = Some TERMINAL"
  using routing_labels_mapped
    [of "(initial_state ''mail'' ''q1'')\<lparr>security_flags := [''POTENTIAL_PII_CC'']\<rparr>"]
  by (simp add: route_after_risk_def risk_table_def initial_state_def)

section \<open>Premium calculation\<close>

text \<open>
  C9: when the extracted industry contains "Retail", "Boutique", "Clothing" or "Fashion"
  and neither the Construction, the Tech nor the Restaurant branch matches,
  \<open>node_calculate\<close> replaces the revenue by 850000: the final premium is
  650 + 175000 * 0.015 + 850000 * 0.005 = 7525, and the whole result is the same for every
  extracted revenue.
\<close>

theorem node_calculate_retail:
  assumes "extracted_data state = Some data"
    and "\<not> (str_in ''Construction'' (industry data) \<or> str_in ''Construction'' (client_name data))"
    and "\<not> (str_in ''Tech'' (industry data) \<or> str_in ''SaaS'' (industry data)
            \<or> str_in ''Software'' (industry data))"
    and "\<not> (str_in ''Restaurant'' (industry data) \<or> str_in ''Kitchen'' (client_name data))"
    and "str_in ''Retail'' (industry data) \<or> str_in ''Boutique'' (industry data)
           \<or> str_in ''Clothing'' (industry data) \<or> str_in ''Fashion'' (industry data)"
  shows "node_calculate env state =
           Inr [W_calculation
                  \<lparr>gl_base = 650, gl_formula = ''Minimum Base Premium'',
                   loss_modifier = 175000 * (15 / 1000), loss_percent = ''Property/Inventory'',
                   loss_formula = ''$175,000 * Rate 0.015'',
                   auto_premium = 850000 * (5 / 1000),
                   auto_formula = ''Business Income Coverage'',
                   auto_formula_desc = ''Auto/Other Premium'',
                   final_premium = 7525,
                   authority = ''APPROVED'',
                   coverage_analysis =
                     ''Comprehensive coverage package tailored to industry risks.''\<rparr>,
                W_execution_time [''calculation'' \<mapsto> elapsed env ''calculation''],
                W_cost_tracking [''calculation'' \<mapsto> 0]]
         \<and> (650 + 175000 * (15 / 1000) + 850000 * (5 / 1000) :: rat) = 7525
         \<and> node_calculate env (state\<lparr>extracted_data := Some (data\<lparr>revenue := r\<rparr>)\<rparr>)
             = node_calculate env state"
  using assms by (simp add: node_calculate_def)

theorem node_calculate_retail_witness:
  "str_in ''Retail'' (industry bella)
   \<and> \<not> str_in ''Construction'' (industry bella) \<and> \<not> str_in ''Construction'' (client_name bella)
   \<and> \<not> str_in ''Tech'' (industry bella) \<and> \<not> str_in ''SaaS'' (industry bella)
   \<and> \<not> str_in ''Software'' (industry bella)
   \<and> \<not> str_in ''Restaurant'' (industry bella) \<and> \<not> str_in ''Kitchen'' (client_name bella)
   \<and> node_calculate (env_of (Inr bella))
     ((initial_state ''mail'' ''q1'')\<lparr>extracted_data := Some bella\<rparr>)
   = node_calculate (env_of (Inr bella))
       ((initial_state ''mail'' ''q1'')\<lparr>extracted_data := Some (bella\<lparr>revenue := 99\<rparr>)\<rparr>)
   \<and> revenue bella = 1200000"
  using node_calculate_retail
    [of "(initial_state ''mail'' ''q1'')\<lparr>extracted_data := Some bella\<rparr>" bella
        "env_of (Inr bella)" 99]
  by (simp add: bella_def)

section \<open>Reducers and the order of patches\<close>

lemma apply_patches_concat: "apply_patches s ps = foldl apply_update s (concat ps)"
  by (induction ps arbitrary: s) (simp_all add: apply_patches_def apply_patch_def)

lemma apply_update_commute:
  "key_of u \<noteq> key_of v \<Longrightarrow>
     apply_update (apply_update s u) v = apply_update (apply_update s v) u"
  by (cases u; cases v; simp)

lemma compatible_sym: "compatible u v \<Longrightarrow> compatible v u"
  by (auto simp: compatible_def)

lemma pairwise_compatibleD:
  "pairwise_compatible us \<Longrightarrow> x \<in> set us \<Longrightarrow> y \<in> set us \<Longrightarrow> x \<noteq> y \<Longrightarrow> compatible x y"
  by (induction us) (auto dest: compatible_sym)

lemma merge_dicts_commute:
  "dom a \<inter> dom b = {} \<Longrightarrow> merge_dicts (merge_dicts m a) b = merge_dicts (merge_dicts m b) a"
proof -
  assume d: "dom a \<inter> dom b = {}"
  have "(m ++ a) ++ b = m ++ (a ++ b)" by simp
  also have "a ++ b = b ++ a" using d by (rule map_add_comm)
  also have "m ++ (b ++ a) = (m ++ b) ++ a" by simp
  finally show ?thesis by (simp add: merge_dicts_def)
qed

lemma drop_flags_update_cong:
  "drop_flags s = drop_flags t \<Longrightarrow> drop_flags (apply_update s u) = drop_flags (apply_update t u)"
  by (cases s; cases t; cases u; simp add: drop_flags_def)

lemma reducer_write_cases:
  assumes "policy_of (key_of u) \<noteq> Some Overwrite"
  obtains d where "u = W_cost_tracking d" | d where "u = W_execution_time d"
    | l where "u = W_security_flags l" | r where "u = W_stop_reason r"
  using assms by (cases u) (simp_all add: policy_of_def)

lemma drop_flags_commute:
  assumes c: "compatible u v"
  shows "drop_flags (apply_update (apply_update s u) v)
           = drop_flags (apply_update (apply_update s v) u)"
proof (cases "key_of u = key_of v")
  case False
  then show ?thesis by (simp add: apply_update_commute)
next
  case True
  with c have p: "policy_of (key_of u) \<noteq> Some Overwrite"
    and d: "dict_keys u \<inter> dict_keys v = {}"
    by (simp_all add: compatible_def)
  from p show ?thesis
  proof (cases u rule: reducer_write_cases)
    case (1 a)
    with True obtain b where v: "v = W_cost_tracking b" by (cases v) simp_all
    from d 1 v have "dom a \<inter> dom b = {}" by simp
    then show ?thesis using 1 v by (simp add: merge_dicts_commute [of a b])
  next
    case (2 a)
    with True obtain b where v: "v = W_execution_time b" by (cases v) simp_all
    from d 2 v have "dom a \<inter> dom b = {}" by simp
    then show ?thesis using 2 v by (simp add: merge_dicts_commute [of a b])
  next
    case (3 l)
    with True obtain l' where "v = W_security_flags l'" by (cases v) simp_all
    with 3 show ?thesis by (simp add: drop_flags_def)
  next
    case (4 r)
    with True obtain r' where "v = W_stop_reason r'" by (cases v) simp_all
    with 4 show ?thesis by simp
  qed
qed

lemma erased_update_commute:
  assumes "compatible u v"
  shows "erased_update u \<circ> erased_update v = erased_update v \<circ> erased_update u"
proof
  fix s
  have "drop_flags (apply_update (drop_flags (apply_update s v)) u)
          = drop_flags (apply_update (apply_update s v) u)"
    by (rule drop_flags_update_cong) (simp add: drop_flags_def)
  moreover have "drop_flags (apply_update (drop_flags (apply_update s u)) v)
          = drop_flags (apply_update (apply_update s u) v)"
    by (rule drop_flags_update_cong) (simp add: drop_flags_def)
  ultimately show "(erased_update u \<circ> erased_update v) s = (erased_update v \<circ> erased_update u) s"
    using drop_flags_commute [OF assms, of s] by (simp add: erased_update_def)
qed

lemma drop_flags_foldl:
  "drop_flags (foldl apply_update s us) = fold erased_update us (drop_flags s)"
proof (induction us arbitrary: s)
  case Nil
  show ?case by simp
next
  case (Cons u us)
  have "drop_flags (apply_update (drop_flags s) u) = drop_flags (apply_update s u)"
    by (rule drop_flags_update_cong) (simp add: drop_flags_def)
  moreover have "drop_flags (drop_flags (apply_update (drop_flags s) u))
                   = drop_flags (apply_update (drop_flags s) u)"
    by (simp add: drop_flags_def)
  ultimately show ?case
    using Cons.IH [of "apply_update s u"] by (simp add: erased_update_def)
qed

lemma flags_foldl:
  "security_flags (foldl apply_update s us) = security_flags s @ concat (map flags_written us)"
proof (induction us arbitrary: s)
  case Nil
  show ?case by simp
next
  case (Cons u us)
  have "security_flags (apply_update s u) = security_flags s @ flags_written u"
    by (cases u) (simp_all add: add_def)
  then show ?case using Cons.IH [of "apply_update s u"] by simp
qed

lemma mset_concat_cong:
  assumes "mset qs = mset ps"
  shows "mset (concat qs) = mset (concat ps)"
proof -
  have "mset (concat qs) = sum_mset (image_mset mset (mset qs))"
    by (simp add: mset_concat flip: sum_mset_sum_list)
  also have "\<dots> = sum_mset (image_mset mset (mset ps))" using assms by simp
  also have "\<dots> = mset (concat ps)"
    by (simp add: mset_concat flip: sum_mset_sum_list)
  finally show ?thesis .
qed

lemma drop_flags_order:
  assumes "mset vs = mset us" and "pairwise_compatible us"
  shows "drop_flags (foldl apply_update s vs) = drop_flags (foldl apply_update s us)"
proof -
  have "fold erased_update us = fold erased_update vs"
  proof (rule fold_multiset_equiv)
    fix x y
    assume "x \<in> set us" and "y \<in> set us"
    then show "erased_update x \<circ> erased_update y = erased_update y \<circ> erased_update x"
      using pairwise_compatibleD [OF assms(2)] erased_update_commute
      by (cases "x = y") auto
  next
    show "mset us = mset vs" using assms(1) by simp
  qed
  then show ?thesis by (simp add: drop_flags_foldl)
qed

lemma flags_order:
  assumes "mset vs = mset us"
  shows "mset (security_flags (foldl apply_update s vs))
           = mset (security_flags (foldl apply_update s us))"
proof -
  have "mset (map flags_written vs) = mset (map flags_written us)"
    using assms by (metis mset_map)
  then have "mset (concat (map flags_written vs)) = mset (concat (map flags_written us))"
    by (rule mset_concat_cong)
  then show ?thesis by (simp add: flags_foldl)
qed

lemma exact_order:
  assumes "mset vs = mset us" and "distinct (map key_of us)"
  shows "foldl apply_update s vs = foldl apply_update s us"
proof -
  have "fold (\<lambda>u s. apply_update s u) us = fold (\<lambda>u s. apply_update s u) vs"
  proof (rule fold_multiset_equiv)
    fix x y
    assume xy: "x \<in> set us" "y \<in> set us"
    show "(\<lambda>s. apply_update s x) \<circ> (\<lambda>s. apply_update s y)
            = (\<lambda>s. apply_update s y) \<circ> (\<lambda>s. apply_update s x)"
    proof (cases "x = y")
      case True
      then show ?thesis by simp
    next
      case False
      then have "key_of x \<noteq> key_of y"
        using xy assms(2) by (auto simp: distinct_map inj_on_def)
      then show ?thesis by (auto simp: fun_eq_iff apply_update_commute)
    qed
  next
    show "mset us = mset vs" using assms(1) by simp
  qed
  then show ?thesis by (simp add: foldl_conv_fold)
qed

text \<open>
  C1 (as amended): let \<open>qs\<close> be any reordering of the patches \<open>ps\<close>. If any two writes
  of the batch that target the same field target a reducer field and set disjoint keys of
  a Shallow-merge dictionary, then both orders give the same state up to the order of
  \<open>security_flags\<close>, which holds the same flags with the same multiplicities. If no field
  is written twice in the batch (the patches target distinct fields), both orders give the
  same state.
\<close>

theorem reducers_order_independent:
  assumes "mset qs = mset ps"
  shows "(pairwise_compatible (concat ps) \<longrightarrow>
            drop_flags (apply_patches s qs) = drop_flags (apply_patches s ps) \<and>
            cost_tracking (apply_patches s qs) = cost_tracking (apply_patches s ps) \<and>
            execution_time (apply_patches s qs) = execution_time (apply_patches s ps) \<and>
            mset (security_flags (apply_patches s qs))
              = mset (security_flags (apply_patches s ps)))
         \<and> (distinct (map key_of (concat ps)) \<longrightarrow> apply_patches s qs = apply_patches s ps)"
proof -
  have m: "mset (concat qs) = mset (concat ps)"
    using assms by (rule mset_concat_cong)
  have a: "drop_flags (apply_patches s qs) = drop_flags (apply_patches s ps)"
    if "pairwise_compatible (concat ps)"
    using drop_flags_order [OF m that] by (simp add: apply_patches_concat)
  have b: "cost_tracking (apply_patches s qs) = cost_tracking (apply_patches s ps)
           \<and> execution_time (apply_patches s qs) = execution_time (apply_patches s ps)"
    if "pairwise_compatible (concat ps)"
  proof -
    have "cost_tracking (drop_flags (apply_patches s qs))
            = cost_tracking (drop_flags (apply_patches s ps))"
      and "execution_time (drop_flags (apply_patches s qs))
            = execution_time (drop_flags (apply_patches s ps))"
      using a [OF that] by simp_all
    then show ?thesis by (simp add: drop_flags_def)
  qed
  have c: "mset (security_flags (apply_patches s qs)) = mset (security_flags (apply_patches s ps))"
    using flags_order [OF m] by (simp add: apply_patches_concat)
  have d: "apply_patches s qs = apply_patches s ps" if "distinct (map key_of (concat ps))"
    using exact_order [OF m that] by (simp add: apply_patches_concat)
  show ?thesis using a b c d by blast
qed

theorem reducers_order_independent_witness:
  "pairwise_compatible
     (concat [[W_security_flags [''POTENTIAL_PII_SSN''], W_cost_tracking [''security'' \<mapsto> 1]],
              [W_security_flags [''POTENTIAL_PII_CC''], W_cost_tracking [''risk'' \<mapsto> 2]]])
   \<and> cost_tracking (apply_patches (initial_state ''mail'' ''q1'')
         [[W_security_flags [''POTENTIAL_PII_CC''], W_cost_tracking [''risk'' \<mapsto> 2]],
          [W_security_flags [''POTENTIAL_PII_SSN''], W_cost_tracking [''security'' \<mapsto> 1]]])
     = cost_tracking (apply_patches (initial_state ''mail'' ''q1'')
         [[W_security_flags [''POTENTIAL_PII_SSN''], W_cost_tracking [''security'' \<mapsto> 1]],
          [W_security_flags [''POTENTIAL_PII_CC''], W_cost_tracking [''risk'' \<mapsto> 2]]])
   \<and> distinct (map key_of (concat [[W_is_referral True], [W_quote_letter ''Dear'']]))
   \<and> apply_patches (initial_state ''mail'' ''q1'') [[W_quote_letter ''Dear''], [W_is_referral True]]
     = apply_patches (initial_state ''mail'' ''q1'') [[W_is_referral True], [W_quote_letter ''Dear'']]"
  using reducers_order_independent
      [of "[[W_security_flags [''POTENTIAL_PII_CC''], W_cost_tracking [''risk'' \<mapsto> 2]],
            [W_security_flags [''POTENTIAL_PII_SSN''], W_cost_tracking [''security'' \<mapsto> 1]]]"
          "[[W_security_flags [''POTENTIAL_PII_SSN''], W_cost_tracking [''security'' \<mapsto> 1]],
            [W_security_flags [''POTENTIAL_PII_CC''], W_cost_tracking [''risk'' \<mapsto> 2]]]"
          "initial_state ''mail'' ''q1''"]
    reducers_order_independent
      [of "[[W_quote_letter ''Dear''], [W_is_referral True]]"
          "[[W_is_referral True], [W_quote_letter ''Dear'']]"
          "initial_state ''mail'' ''q1''"]
  by (simp add: compatible_def policy_of_def)

text \<open>
  C1 (as stated) fails: appending two flag lists in the two orders gives different
  lists, and two dictionary updates that set the same key leave the value of whichever
  came last.
\<close>

theorem reducers_commute_counterexample:
  "security_flags (apply_patches (initial_state ''mail'' ''q1'')
       [[W_security_flags [''POTENTIAL_PII_SSN'']], [W_security_flags [''POTENTIAL_PII_CC'']]])
     \<noteq> security_flags (apply_patches (initial_state ''mail'' ''q1'')
       [[W_security_flags [''POTENTIAL_PII_CC'']], [W_security_flags [''POTENTIAL_PII_SSN'']]])
   \<and> cost_tracking (apply_patches (initial_state ''mail'' ''q1'')
       [[W_cost_tracking [''risk'' \<mapsto> 1]], [W_cost_tracking [''risk'' \<mapsto> 2]]])
     \<noteq> cost_tracking (apply_patches (initial_state ''mail'' ''q1'')
       [[W_cost_tracking [''risk'' \<mapsto> 2]], [W_cost_tracking [''risk'' \<mapsto> 1]]])"
proof -
  have "([''risk'' \<mapsto> 2::rat] :: string \<rightharpoonup> rat) ''risk'' \<noteq> ([''risk'' \<mapsto> 1]) ''risk''"
    by simp
  then have "([''risk'' \<mapsto> 2::rat] :: string \<rightharpoonup> rat) \<noteq> [''risk'' \<mapsto> 1]"
    by metis
  then show ?thesis
    by (simp add: apply_patches_def apply_patch_def initial_state_def add_def merge_dicts_def)
qed

section \<open>Conflicting writes\<close>

lemma first_conflict_seen:
  "first_conflict seen ps = None \<Longrightarrow> p \<in> set ps \<Longrightarrow> k \<in> set seen
     \<Longrightarrow> k \<notin> set (overwrite_keys p)"
proof (induction ps arbitrary: seen)
  case Nil
  then show ?case by simp
next
  case (Cons q ps)
  from Cons.prems(1) have none: "find (\<lambda>k. k \<in> set seen) (overwrite_keys q) = None"
    and rest: "first_conflict (seen @ overwrite_keys q) ps = None"
    by (simp_all split: option.splits)
  show ?case
  proof (cases "p = q")
    case True
    with none Cons.prems(3) show ?thesis by (auto simp: find_None_iff)
  next
    case False
    with Cons.prems(2) have "p \<in> set ps" by simp
    with rest Cons.prems(3) show ?thesis using Cons.IH [of "seen @ overwrite_keys q"] by simp
  qed
qed

lemma first_conflict_pair:
  "first_conflict seen ps = None \<Longrightarrow> i < j \<Longrightarrow> j < length ps
     \<Longrightarrow> k \<in> set (overwrite_keys (ps ! i)) \<Longrightarrow> k \<notin> set (overwrite_keys (ps ! j))"
proof (induction ps arbitrary: seen i j)
  case Nil
  then show ?case by simp
next
  case (Cons q ps)
  from Cons.prems(1) have rest: "first_conflict (seen @ overwrite_keys q) ps = None"
    by (simp split: option.splits)
  from Cons.prems(2) obtain j' where j: "j = Suc j'" by (cases j) simp_all
  with Cons.prems(3) have j': "j' < length ps" by simp
  show ?case
  proof (cases i)
    case 0
    with Cons.prems(4) have "k \<in> set (seen @ overwrite_keys q)" by simp
    with rest j' show ?thesis using first_conflict_seen [of _ ps "ps ! j'" k] j by simp
  next
    case (Suc i')
    with Cons.prems(2,4) j have "i' < j'" and "k \<in> set (overwrite_keys (ps ! i'))" by simp_all
    with rest j' show ?thesis using Cons.IH [of _ i' j'] j by simp
  qed
qed

text \<open>
  C5: when two different patches of a batch write the same Overwrite field, \<open>merge\<close>
  fails with a \<open>MergeError\<close>; it never returns a merged state.
\<close>

theorem merge_rejects_overwrite_conflict:
  assumes "i < j" and "j < length ps"
    and "u \<in> set (ps ! i)" and "v \<in> set (ps ! j)"
    and "key_of u = key_of v" and "policy_of (key_of u) = Some Overwrite"
  shows "(\<exists>k. merge s ps = Inl (MergeError k)) \<and> (\<forall>s'. merge s ps \<noteq> Inr s')"
proof -
  have "key_of u \<in> set (overwrite_keys (ps ! i))"
    using assms(3,6) by (simp add: overwrite_keys_def)
  moreover have "key_of v \<in> set (overwrite_keys (ps ! j))"
    using assms(4,5,6) by (simp add: overwrite_keys_def)
  ultimately have "key_of u \<in> set (overwrite_keys (ps ! i))"
    and "key_of u \<in> set (overwrite_keys (ps ! j))"
    using assms(5) by simp_all
  then have "first_conflict [] ps \<noteq> None"
    using first_conflict_pair [of "[]" ps i j "key_of u"] assms(1,2) by blast
  then show ?thesis by (auto simp: merge_def)
qed

theorem merge_rejects_overwrite_conflict_witness:
  "merge (initial_state ''mail'' ''q1'')
     [[W_is_referral True, W_cost_tracking [''risk'' \<mapsto> 1]],
      [W_rates [], W_cost_tracking [''rates'' \<mapsto> 2]],
      [W_is_referral False]] = Inl (MergeError ''is_referral'')"
  using merge_rejects_overwrite_conflict
    [of 0 2 "[[W_is_referral True, W_cost_tracking [''risk'' \<mapsto> 1]],
      [W_rates [], W_cost_tracking [''rates'' \<mapsto> 2]],
      [W_is_referral False]]" "W_is_referral True" "W_is_referral False"
      "initial_state ''mail'' ''q1''"]
  by (simp add: merge_def overwrite_keys_def policy_of_def)

section \<open>Compilation\<close>

lemma topo_sort_sound:
  "topo_sort as remaining = Some ord \<Longrightarrow>
     set ord = set remaining \<and> distinct ord \<and>
     (\<forall>a \<in> set as. fst a \<in> set remaining \<and> snd a \<in> set remaining \<longrightarrow>
        (\<exists>i j. i < j \<and> j < length ord \<and> ord ! i = fst a \<and> ord ! j = snd a))"
proof (induction as remaining arbitrary: ord rule: topo_sort.induct)
  case (1 as remaining)
  show ?case
  proof (cases "remaining = []")
    case True
    with "1.prems" show ?thesis by (simp add: topo_sort.simps)
  next
    case False
    with "1.prems" obtain n ord' where
      f: "find (is_source as remaining) remaining = Some n"
      and t: "topo_sort as (removeAll n remaining) = Some ord'"
      and ord: "ord = n # ord'"
      by (subst (asm) topo_sort.simps) (auto split: option.splits)
    from f have n: "n \<in> set remaining" and src: "is_source as remaining n"
      by (auto simp: find_Some_iff)
    note IH = "1.IH" [OF False f t]
    from IH have s': "set ord' = set remaining - {n}" and d': "distinct ord'" by simp_all
    have "set ord = set remaining" using ord s' n by auto
    moreover have "distinct ord" using ord s' d' by simp
    moreover have "\<exists>i j. i < j \<and> j < length ord \<and> ord ! i = fst a \<and> ord ! j = snd a"
      if a: "a \<in> set as" and fa: "fst a \<in> set remaining" and sa: "snd a \<in> set remaining" for a
    proof -
      from src a fa have sn: "snd a \<noteq> n"
        by (auto simp: is_source_def list_ex_iff)
      show ?thesis
      proof (cases "fst a = n")
        case True
        from sa sn s' have "snd a \<in> set ord'" by simp
        then obtain j where "j < length ord'" and "ord' ! j = snd a"
          by (auto simp: in_set_conv_nth)
        with True ord have "0 < Suc j \<and> Suc j < length ord \<and> ord ! 0 = fst a \<and> ord ! Suc j = snd a"
          by simp
        then show ?thesis by blast
      next
        case False
        with fa sa sn have "fst a \<in> set (removeAll n remaining)"
          and "snd a \<in> set (removeAll n remaining)" by simp_all
        with IH a obtain i j where "i < j" "j < length ord'" "ord' ! i = fst a" "ord' ! j = snd a"
          by blast
        with ord have "Suc i < Suc j \<and> Suc j < length ord \<and> ord ! Suc i = fst a
                       \<and> ord ! Suc j = snd a"
          by simp
        then show ?thesis by blast
      qed
    qed
    ultimately show ?thesis by blast
  qed
qed

lemma set_node_targets: "set (node_targets ts) = {n. Node n \<in> set ts}"
  by (induction ts rule: node_targets.induct) auto

lemma arcs_in_endpoints:
  assumes "a \<in> set (arcs g)"
  shows "fst a \<in> set (endpoints g) \<and> snd a \<in> set (endpoints g)"
  using assms
  by (auto simp: arcs_def endpoints_def conditional_arcs_def set_node_targets) force+

lemma order_along_path:
  assumes "topological_order g ord" and "(u, v) \<in> (set (arcs g))\<^sup>+"
  shows "\<exists>i j. i < j \<and> j < length ord \<and> ord ! i = u \<and> ord ! j = v"
  using assms(2)
proof (induction rule: trancl_induct)
  case (base y)
  with assms(1) show ?case by (fastforce simp: topological_order_def)
next
  case (step y z)
  from step.IH obtain i j where ij: "i < j" "j < length ord" "ord ! i = u" "ord ! j = y"
    by blast
  from step.hyps(2) assms(1) obtain i' j' where
    ij': "i' < j'" "j' < length ord" "ord ! i' = y" "ord ! j' = z"
    by (fastforce simp: topological_order_def)
  from assms(1) have "distinct ord" by (simp add: topological_order_def)
  with ij ij' have "i' = j" using nth_eq_iff_index_eq [of ord i' j] by auto
  with ij ij' have "i < j' \<and> j' < length ord \<and> ord ! i = u \<and> ord ! j' = z" by simp
  then show ?case by blast
qed

lemma topological_order_acyclic:
  assumes "topological_order g ord"
  shows "\<not> has_cycle g"
proof
  assume "has_cycle g"
  then obtain n where "(n, n) \<in> (set (arcs g))\<^sup>+" by (auto simp: has_cycle_def)
  with assms obtain i j where "i < j" "j < length ord" "ord ! i = n" "ord ! j = n"
    using order_along_path by blast
  moreover from assms have "distinct ord" by (simp add: topological_order_def)
  ultimately show False using nth_eq_iff_index_eq [of ord i j] by auto
qed

lemma compile_order:
  assumes "compile g = Inr cg"
  shows "cg_graph cg = g \<and> topological_order g (cg_order cg)"
proof -
  from assms obtain ord where
    e: "find (\<lambda>n. n \<notin> set (node_ids g)) (endpoints g) = None"
    and t: "topo_sort (arcs g) (node_ids g) = Some ord"
    and cg: "cg = \<lparr>cg_graph = g, cg_order = ord\<rparr>"
    by (auto simp: compile_def split: option.splits if_splits)
  from e have reg: "\<forall>n \<in> set (endpoints g). n \<in> set (node_ids g)"
    by (simp add: find_None_iff)
  have "fst a \<in> set (node_ids g) \<and> snd a \<in> set (node_ids g)" if "a \<in> set (arcs g)" for a
    using arcs_in_endpoints [OF that] reg by blast
  with topo_sort_sound [OF t] have "topological_order g ord"
    by (simp add: topological_order_def)
  with cg show ?thesis by simp
qed

lemma compile_build_graph: "compile build_graph = Inr graph_app"
  by (simp add: compile_def build_graph_def graph_app_def endpoints_def node_ids_def
      risk_table_def calculation_table_def reachable_def arcs_def conditional_arcs_def
      succs_of_def topo_sort.simps is_source_def)

lemma compile_cyclic_graph: "compile cyclic_graph = Inl CycleDetected"
  by (simp add: cyclic_graph_def compile_def build_graph_def endpoints_def node_ids_def
      risk_table_def calculation_table_def reachable_def arcs_def conditional_arcs_def
      succs_of_def topo_sort.simps is_source_def)

lemma cyclic_graph_has_cycle: "has_cycle cyclic_graph"
proof -
  have "(''calculate'', ''quote'') \<in> set (arcs cyclic_graph)"
    and "(''quote'', ''calculate'') \<in> set (arcs cyclic_graph)"
    by (simp_all add: cyclic_graph_def build_graph_def arcs_def conditional_arcs_def
        risk_table_def calculation_table_def)
  then have "(''calculate'', ''calculate'') \<in> (set (arcs cyclic_graph))\<^sup>+"
    by (meson r_into_trancl trancl_into_trancl)
  then show ?thesis unfolding has_cycle_def by blast
qed

text \<open>
  C6: compiling a graph definition that contains a cycle fails with a \<open>CompileError\<close>, and
  for every graph that compiles the order the compiler computed is a topological ordering
  of its nodes (so the graph has no cycle).
\<close>

theorem compile_rejects_cycles:
  "(has_cycle g \<longrightarrow> (\<exists>e. compile g = Inl e))
   \<and> (\<forall>cg. compile g = Inr cg \<longrightarrow> topological_order g (cg_order cg) \<and> \<not> has_cycle g)"
proof -
  have a: "topological_order g (cg_order cg) \<and> \<not> has_cycle g" if "compile g = Inr cg" for cg
    using compile_order [OF that] topological_order_acyclic by blast
  then have "\<exists>e. compile g = Inl e" if "has_cycle g"
    using that by (cases "compile g") auto
  with a show ?thesis by blast
qed

theorem compile_rejects_cycles_witness:
  "has_cycle cyclic_graph \<and> compile cyclic_graph = Inl CycleDetected
   \<and> compile build_graph = Inr graph_app
   \<and> topological_order build_graph (cg_order graph_app) \<and> \<not> has_cycle build_graph"
  using compile_rejects_cycles [of cyclic_graph] compile_rejects_cycles [of build_graph]
    cyclic_graph_has_cycle compile_cyclic_graph compile_build_graph
  by simp

section \<open>Runs of the underwriting graph\<close>









lemma graph_app_simps:
  "cg_graph graph_app = build_graph"
  "g_pause_before build_graph = [''manual_review'']"
  "g_start build_graph = ''security''"
  by (simp_all add: graph_app_def build_graph_def)




lemma merge_none: "merge s [] = Inr s"
  by (simp add: merge_def apply_patches_def)



lemma step_one_fails:
  assumes "ready_nodes build_graph [n] = [n]"
    and "n \<noteq> ''manual_review'' \<or> n \<in> set ap"
    and "invoke_node build_graph env s n = Inl e"
  shows "step graph_app env tid
           \<lparr>t_state = s, t_frontier = [n], t_executed = ex, t_approved = ap\<rparr>
         = Inl (Failed n (NodeError e) s, ex @ [n])"
  using assms by (auto simp: step_def graph_app_simps merge_none)




lemma run_loop_continue:
  "step cg env tid th = Inr th' \<Longrightarrow> run_loop (Suc k) cg env tid th = run_loop k cg env tid th'"
  by simp

lemma run_loop_end:
  "step cg env tid th = Inl r \<Longrightarrow> run_loop (Suc k) cg env tid th = Some r"
  by simp











lemma input_email_apply_update [simp]: "input_email (apply_update s u) = input_email s"
  by (cases u) simp_all

lemma input_email_apply_patches [simp]: "input_email (apply_patches s ps) = input_email s"
proof -
  have "input_email (foldl apply_update s us) = input_email s" for us
    by (induction us arbitrary: s) simp_all
  then show ?thesis by (simp add: apply_patches_concat)
qed

lemma input_email_after [simp]: "input_email (after f env s) = input_email s"
  by (simp add: after_def split: sum.splits)









section \<open>Results of a run\<close>























end
